theory Spec2Isabelle
  imports Main "HOL-Library.Multiset"
begin

section \<open>Data model of the container (boot/container.go)\<close>

text \<open>
  A \<open>reflect.Type\<close> is a named type or a pointer to a type. \<open>typeString\<close> is its
  \<open>String()\<close>, \<open>isPtr\<close> is \<open>Kind() == reflect.Ptr\<close> and \<open>elemType\<close> is \<open>Elem()\<close>.
\<close>

datatype rtype = TNamed string | TPtr rtype

fun typeString :: "rtype \<Rightarrow> string" where
  "typeString (TNamed n) = n"
| "typeString (TPtr t) = CHR ''*'' # typeString t"

fun isPtr :: "rtype \<Rightarrow> bool" where
  "isPtr (TPtr t) = True"
| "isPtr (TNamed n) = False"

fun elemType :: "rtype \<Rightarrow> rtype" where
  "elemType (TPtr t) = t"
| "elemType (TNamed n) = TNamed n"

text \<open>
  A component instance is an interface value that is not nil: an address together with
  the dynamic type that \<open>reflect.TypeOf\<close> reports for it. The address 0 is the nil
  pointer, so an instance with \<open>ref = 0\<close> is a typed nil pointer, which the builder
  registers like any other instance.
\<close>

record inst =
  ref :: nat
  dynType :: rtype

record ComponentInfo =
  Instance :: inst
  InstanceType :: "rtype option"
  Name :: string
  Priority :: int
  ExportedTypes :: "rtype list"
  IsPrimary :: bool

record Container =
  componentsByName :: "string \<rightharpoonup> ComponentInfo"
  componentsByType :: "rtype \<rightharpoonup> ComponentInfo"
  components :: "ComponentInfo list"
  started :: bool

text \<open>
  Every \<open>fmt.Errorf\<close> of the package is one constructor, carrying the values the
  message is formatted from; \<open>%w\<close> wraps the cause. \<open>UserError\<close> is an error
  returned by a lifecycle callback of a component.
\<close>

datatype error =
    DuplicateName string "rtype option" "rtype option"
  | ComponentNotFound string
  | TypeNotFound rtype
  | NotAssignable string rtype rtype
  | AutowireFailed string error
  | InitFailed string error
  | StartupFailed string error
  | ShutdownFailed string error
  | AlreadyStarted
  | AmbiguousComponents rtype "string list"
  | MultiplePrimary rtype "string list"
  | MustBePointer
  | MustImplementComponent
  | UserError string

definition NewContainer :: Container where
  "NewContainer =
     \<lparr>componentsByName = Map.empty, componentsByType = Map.empty,
      components = [], started = False\<rparr>"

text \<open>\<open>registerComponent\<close>: the name check, then the index by name and the append.\<close>

definition registerComponent :: "Container \<Rightarrow> ComponentInfo \<Rightarrow> error option \<times> Container" where
  "registerComponent c info =
     (case componentsByName c (Name info) of
        Some existing \<Rightarrow>
          (Some (DuplicateName (Name info) (InstanceType existing) (InstanceType info)), c)
      | None \<Rightarrow>
          (None, c\<lparr>componentsByName := (componentsByName c)(Name info \<mapsto> info),
                   components := components c @ [info]\<rparr>))"

text \<open>
  The containers that registration can build: \<open>NewContainer\<close> followed by any number of
  \<open>registerComponent\<close> calls, failed ones included.
\<close>

fun registerAll :: "Container \<Rightarrow> ComponentInfo list \<Rightarrow> Container" where
  "registerAll c [] = c"
| "registerAll c (info # infos) = registerAll (snd (registerComponent c info)) infos"

text \<open>\<open>getByNameUnsafe\<close> and \<open>getByTypeUnsafe\<close>: the two lookups, without the lock.\<close>

definition getByNameUnsafe :: "Container \<Rightarrow> string \<Rightarrow> error + inst" where
  "getByNameUnsafe c name =
     (case componentsByName c name of
        None \<Rightarrow> Inl (ComponentNotFound name)
      | Some info \<Rightarrow> Inr (Instance info))"

definition getByTypeUnsafe :: "Container \<Rightarrow> rtype \<Rightarrow> error + inst" where
  "getByTypeUnsafe c componentType =
     (case componentsByType c componentType of
        None \<Rightarrow> Inl (TypeNotFound componentType)
      | Some info \<Rightarrow> Inr (Instance info))"

section \<open>The fluent builder (boot/object_builder.go)\<close>

record ObjectBuilder =
  b_instance :: inst
  b_instanceType :: rtype
  b_name :: string
  b_priority :: int
  b_exportedTypes :: "rtype list"
  b_nameSet :: bool
  b_prioritySet :: bool
  b_isPrimary :: bool

definition newObjectBuilder :: "inst \<Rightarrow> ObjectBuilder" where
  "newObjectBuilder i =
     (let instanceType = dynType i;
          defaultName = (if isPtr instanceType then typeString (elemType instanceType)
                         else typeString instanceType)
      in \<lparr>b_instance = i, b_instanceType = instanceType, b_name = defaultName,
          b_priority = 0, b_exportedTypes = [instanceType],
          b_nameSet = False, b_prioritySet = False, b_isPrimary = False\<rparr>)"

definition Name_b :: "string \<Rightarrow> ObjectBuilder \<Rightarrow> ObjectBuilder" where
  "Name_b name b = b\<lparr>b_name := name, b_nameSet := True\<rparr>"

definition Priority_b :: "int \<Rightarrow> ObjectBuilder \<Rightarrow> ObjectBuilder" where
  "Priority_b priority b = b\<lparr>b_priority := priority, b_prioritySet := True\<rparr>"

text \<open>\<open>Export\<close> receives the type of its argument, a nil pointer to the exported type.\<close>

definition Export :: "rtype \<Rightarrow> ObjectBuilder \<Rightarrow> ObjectBuilder" where
  "Export t b =
     b\<lparr>b_exportedTypes := b_exportedTypes b @ [if isPtr t then elemType t else t]\<rparr>"

definition Primary :: "ObjectBuilder \<Rightarrow> ObjectBuilder" where
  "Primary b = b\<lparr>b_isPrimary := True\<rparr>"

definition register :: "ObjectBuilder \<Rightarrow> Container \<Rightarrow> error option \<times> Container" where
  "register b c =
     registerComponent c
       \<lparr>Instance = b_instance b, InstanceType = Some (dynType (b_instance b)),
        Name = b_name b, Priority = b_priority b,
        ExportedTypes = b_exportedTypes b, IsPrimary = b_isPrimary b\<rparr>"

text \<open>A chain of fluent calls on a builder, in the order they are written.\<close>

datatype builderCall = CallName string | CallPriority int | CallExport rtype | CallPrimary

fun applyCall :: "builderCall \<Rightarrow> ObjectBuilder \<Rightarrow> ObjectBuilder" where
  "applyCall (CallName n) b = Name_b n b"
| "applyCall (CallPriority p) b = Priority_b p b"
| "applyCall (CallExport t) b = Export t b"
| "applyCall CallPrimary b = Primary b"

text \<open>
  \<open>AutoRegister\<close>. The instance's methods are opaque: \<open>asComponent\<close> tells whether the
  instance implements \<open>Component\<close> and, if so, what \<open>Name()\<close> and \<open>Priority()\<close> return
  when the descriptor is built (the scan of the \<open>component\<close> tags before it can only
  call the instance's own \<open>SetName\<close>).
\<close>

definition AutoRegister ::
  "(inst \<Rightarrow> (string \<times> int) option) \<Rightarrow> Container \<Rightarrow> inst \<Rightarrow> error option \<times> Container" where
  "AutoRegister asComponent c i =
     (if \<not> isPtr (dynType i) then (Some MustBePointer, c)
      else case asComponent i of
             None \<Rightarrow> (Some MustImplementComponent, c)
           | Some (name, priority) \<Rightarrow>
               registerComponent c
                 \<lparr>Instance = i, InstanceType = None, Name = name, Priority = priority,
                  ExportedTypes = [], IsPrimary = False\<rparr>)"

section \<open>Capability resolution (validateTypeRegistrations)\<close>

definition appendGroup ::
  "(rtype \<rightharpoonup> ComponentInfo list) \<Rightarrow> rtype \<Rightarrow> ComponentInfo \<Rightarrow> (rtype \<rightharpoonup> ComponentInfo list)" where
  "appendGroup g t info = g(t \<mapsto> (case g t of None \<Rightarrow> [] | Some xs \<Rightarrow> xs) @ [info])"

definition typeGroups :: "ComponentInfo list \<Rightarrow> (rtype \<rightharpoonup> ComponentInfo list)" where
  "typeGroups infos =
     fold (\<lambda>info g. fold (\<lambda>exportedType g'. appendGroup g' exportedType info)
                         (ExportedTypes info) g)
          infos Map.empty"

text \<open>
  The loop over the groups. Go visits the keys of a map in an unspecified order, which
  is the list \<open>order\<close> here; the function returns at the first group that fails, with
  the type index filled for the groups visited before it.
\<close>

fun validateGroups ::
  "(rtype \<rightharpoonup> ComponentInfo list) \<Rightarrow> rtype list \<Rightarrow> (rtype \<rightharpoonup> ComponentInfo)
     \<Rightarrow> error option \<times> (rtype \<rightharpoonup> ComponentInfo)" where
  "validateGroups g [] byType = (None, byType)"
| "validateGroups g (exportedType # rest) byType =
     (case g exportedType of
        None \<Rightarrow> validateGroups g rest byType
      | Some comps \<Rightarrow>
          if length comps = 1 then validateGroups g rest (byType(exportedType \<mapsto> hd comps))
          else let primaryComponents = filter IsPrimary comps in
            if length primaryComponents = 0
              then (Some (AmbiguousComponents exportedType (map Name comps)), byType)
            else if length primaryComponents > 1
              then (Some (MultiplePrimary exportedType (map Name primaryComponents)), byType)
            else validateGroups g rest (byType(exportedType \<mapsto> hd primaryComponents)))"

definition validateTypeRegistrations :: "rtype list \<Rightarrow> Container \<Rightarrow> error option \<times> Container" where
  "validateTypeRegistrations order c =
     (case validateGroups (typeGroups (components c)) order Map.empty of
        (err, byType) \<Rightarrow> (err, c\<lparr>componentsByType := byType\<rparr>))"

definition keyOrder :: "(rtype \<rightharpoonup> ComponentInfo list) \<Rightarrow> rtype list \<Rightarrow> bool" where
  "keyOrder g order \<longleftrightarrow> distinct order \<and> set order = dom g"

section \<open>Injection (resolveDependencyUnsafe, injectComponentUnsafe)\<close>

text \<open>
  \<open>asg dyn t\<close> is \<open>AssignableTo\<close>: whether a value of dynamic type \<open>dyn\<close> can be stored in a
  field of type \<open>t\<close>. It is given by the type declarations of the program using the
  package. The result \<open>Inr None\<close> is the pair \<open>(nil, nil)\<close>.
\<close>

definition hasOptionalSuffix :: "string \<Rightarrow> bool" where
  "hasOptionalSuffix tag \<longleftrightarrow> length tag > 9 \<and> drop (length tag - 9) tag = '',optional''"

definition resolveDependencyUnsafe ::
  "(rtype \<Rightarrow> rtype \<Rightarrow> bool) \<Rightarrow> Container \<Rightarrow> rtype \<Rightarrow> string \<Rightarrow> error + inst option" where
  "resolveDependencyUnsafe asg c fieldType qualifier =
     (if qualifier = ''optional'' \<or> qualifier = ''?'' then
        (case getByTypeUnsafe c fieldType of
           Inl err \<Rightarrow> Inr None
         | Inr dependency \<Rightarrow> Inr (Some dependency))
      else
        let isOptional = hasOptionalSuffix qualifier;
            componentName = (if isOptional then take (length qualifier - 9) qualifier
                             else qualifier)
        in if componentName = ''required'' \<or> componentName = [] then
             (case getByTypeUnsafe c fieldType of
                Inl err \<Rightarrow> Inl err
              | Inr dependency \<Rightarrow> Inr (Some dependency))
           else
             (case getByNameUnsafe c componentName of
                Inl err \<Rightarrow> if isOptional then Inr None else Inl err
              | Inr component \<Rightarrow>
                  if \<not> asg (dynType component) fieldType then
                    (if isOptional then Inr None
                     else Inl (NotAssignable componentName (dynType component) fieldType))
                  else Inr (Some component)))"

text \<open>
  A struct field as reflection shows it: its name, its declared type, the value of its
  \<open>autowire\<close> tag if it has one, whether it can be set, and the reference it holds.
\<close>

record Field =
  fname :: string
  ftype :: rtype
  autowire :: "string option"
  canSet :: bool
  fval :: "inst option"

text \<open>
  The outcome of injecting one component: it returned nil, it returned an error, or
  \<open>field.Set\<close> panicked on a value that is not assignable to the field.
\<close>

datatype injectResult = Injected | InjectError error | SetPanic

fun injectFields ::
  "(rtype \<Rightarrow> rtype \<Rightarrow> bool) \<Rightarrow> Container \<Rightarrow> Field list \<Rightarrow> injectResult \<times> Field list" where
  "injectFields asg c [] = (Injected, [])"
| "injectFields asg c (f # fs) =
     (case autowire f of
        None \<Rightarrow> (case injectFields asg c fs of (r, fs') \<Rightarrow> (r, f # fs'))
      | Some tag \<Rightarrow>
          if \<not> canSet f then (case injectFields asg c fs of (r, fs') \<Rightarrow> (r, f # fs'))
          else
            let isOptional = (tag = ''optional'' \<or> tag = ''?'' \<or> hasOptionalSuffix tag) in
            (case resolveDependencyUnsafe asg c (ftype f) tag of
               Inl err \<Rightarrow>
                 if isOptional then (case injectFields asg c fs of (r, fs') \<Rightarrow> (r, f # fs'))
                 else (InjectError (AutowireFailed (fname f) err), f # fs)
             | Inr None \<Rightarrow> (case injectFields asg c fs of (r, fs') \<Rightarrow> (r, f # fs'))
             | Inr (Some dependency) \<Rightarrow>
                 if asg (dynType dependency) (ftype f)
                 then (case injectFields asg c fs of
                         (r, fs') \<Rightarrow> (r, f\<lparr>fval := Some dependency\<rparr> # fs'))
                 else (SetPanic, f # fs)))"

text \<open>
  The component handed to \<open>injectComponentUnsafe\<close>: a pointer to a struct, a pointer
  to something else (where \<open>NumField\<close> panics), or not a pointer. A struct is given by
  its own fields, which \<open>v.Field(i)\<close> enumerates, and, apart from them, by the fields
  of the structs embedded in it through fields without an \<open>autowire\<close> tag: Go
  promotes those fields to the struct, but the loop does not reach them.
\<close>

datatype component =
    PtrToStruct "Field list" "Field list"
  | PtrToOther
  | NotPtr "Field list"

definition injectComponentUnsafe ::
  "(rtype \<Rightarrow> rtype \<Rightarrow> bool) \<Rightarrow> Container \<Rightarrow> component \<Rightarrow> injectResult \<times> component" where
  "injectComponentUnsafe asg c target =
     (case target of
        NotPtr fs \<Rightarrow> (Injected, NotPtr fs)
      | PtrToOther \<Rightarrow> (SetPanic, PtrToOther)
      | PtrToStruct fs embedded \<Rightarrow>
          (case injectFields asg c fs of (r, fs') \<Rightarrow> (r, PtrToStruct fs' embedded)))"

section \<open>Lifecycle (getSortedComponents, Initialize, Start, Stop)\<close>

text \<open>
  \<open>sort.Slice\<close> belongs to Go's standard library. \<open>getSortedComponents\<close> takes it as
  the parameter \<open>srt\<close>; its contract is that the result is a permutation of the slice
  in which no element is less than an earlier one. The library does not promise to keep
  equal elements in their original order.
\<close>

type_synonym sorter =
  "(ComponentInfo \<Rightarrow> ComponentInfo \<Rightarrow> bool) \<Rightarrow> ComponentInfo list \<Rightarrow> ComponentInfo list"

definition priorityLess :: "bool \<Rightarrow> ComponentInfo \<Rightarrow> ComponentInfo \<Rightarrow> bool" where
  "priorityLess ascending a b =
     (if ascending then Priority a < Priority b else Priority a > Priority b)"

definition getSortedComponents :: "sorter \<Rightarrow> Container \<Rightarrow> bool \<Rightarrow> ComponentInfo list" where
  "getSortedComponents srt c ascending = srt (priorityLess ascending) (components c)"

definition sortSliceContract :: "sorter \<Rightarrow> bool" where
  "sortSliceContract srt \<longleftrightarrow>
     (\<forall>ascending xs.
        mset (srt (priorityLess ascending) xs) = mset xs
        \<and> sorted_wrt (\<lambda>a b. \<not> priorityLess ascending b a) (srt (priorityLess ascending) xs))"

text \<open>
  What \<open>sort.Slice\<close> runs on a slice of at most twelve elements is an insertion sort:
  each element in turn is swapped towards the front while it is less than its left
  neighbour. \<open>sink\<close> works on the reversed prefix already sorted.
\<close>

fun sink :: "('a \<Rightarrow> 'a \<Rightarrow> bool) \<Rightarrow> 'a \<Rightarrow> 'a list \<Rightarrow> 'a list" where
  "sink lt x [] = [x]"
| "sink lt x (y # ys) = (if lt x y then y # sink lt x ys else x # y # ys)"

definition insertionSortLessFunc :: "('a \<Rightarrow> 'a \<Rightarrow> bool) \<Rightarrow> 'a list \<Rightarrow> 'a list" where
  "insertionSortLessFunc lt xs = rev (fold (sink lt) xs [])"

text \<open>
  A lifecycle callback runs on the state \<open>'w\<close> of everything outside the container and
  returns an error or nil. \<open>InitOf m i\<close> is \<open>None\<close> when the instance \<open>i\<close> does not
  implement \<open>Initializable\<close>, and likewise for \<open>Startable\<close> and \<open>Stoppable\<close>.
  Each loop also returns the callbacks it invoked, in order, with what each returned.
\<close>

type_synonym 'w callback = "'w \<Rightarrow> error option \<times> 'w"

record 'w Methods =
  InitOf :: "inst \<Rightarrow> 'w callback option"
  StartOf :: "inst \<Rightarrow> 'w callback option"
  StopOf :: "inst \<Rightarrow> 'w callback option"

type_synonym calls = "(ComponentInfo \<times> error option) list"

fun initLoop :: "'w Methods \<Rightarrow> ComponentInfo list \<Rightarrow> 'w \<Rightarrow> error option \<times> 'w \<times> calls" where
  "initLoop m [] w = (None, w, [])"
| "initLoop m (info # rest) w =
     (case InitOf m (Instance info) of
        None \<Rightarrow> initLoop m rest w
      | Some initializable \<Rightarrow>
          (case initializable w of
             (Some err, w') \<Rightarrow> (Some (InitFailed (Name info) err), w', [(info, Some err)])
           | (None, w') \<Rightarrow>
               (case initLoop m rest w' of
                  (r, w'', called) \<Rightarrow> (r, w'', (info, None) # called))))"

definition Initialize ::
  "sorter \<Rightarrow> 'w Methods \<Rightarrow> Container \<Rightarrow> 'w \<Rightarrow> error option \<times> 'w \<times> calls" where
  "Initialize srt m c w = initLoop m (getSortedComponents srt c False) w"

fun startLoop :: "'w Methods \<Rightarrow> ComponentInfo list \<Rightarrow> 'w \<Rightarrow> error option \<times> 'w \<times> calls" where
  "startLoop m [] w = (None, w, [])"
| "startLoop m (info # rest) w =
     (case StartOf m (Instance info) of
        None \<Rightarrow> startLoop m rest w
      | Some startable \<Rightarrow>
          (case startable w of
             (Some err, w') \<Rightarrow> (Some (StartupFailed (Name info) err), w', [(info, Some err)])
           | (None, w') \<Rightarrow>
               (case startLoop m rest w' of
                  (r, w'', called) \<Rightarrow> (r, w'', (info, None) # called))))"

definition Start ::
  "sorter \<Rightarrow> 'w Methods \<Rightarrow> Container \<Rightarrow> 'w \<Rightarrow> error option \<times> Container \<times> 'w \<times> calls" where
  "Start srt m c w =
     (if started c then (Some AlreadyStarted, c, w, [])
      else case startLoop m (getSortedComponents srt c False) w of
             (Some err, w', called) \<Rightarrow> (Some err, c, w', called)
           | (None, w', called) \<Rightarrow> (None, c\<lparr>started := True\<rparr>, w', called))"

fun stopLoop ::
  "'w Methods \<Rightarrow> ComponentInfo list \<Rightarrow> 'w \<Rightarrow> error option \<Rightarrow> error option \<times> 'w \<times> calls" where
  "stopLoop m [] w lastErr = (lastErr, w, [])"
| "stopLoop m (info # rest) w lastErr =
     (case StopOf m (Instance info) of
        None \<Rightarrow> stopLoop m rest w lastErr
      | Some stoppable \<Rightarrow>
          (case stoppable w of
             (res, w') \<Rightarrow>
               (case stopLoop m rest w'
                       (case res of
                          Some err \<Rightarrow> Some (ShutdownFailed (Name info) err)
                        | None \<Rightarrow> lastErr) of
                  (r, w'', called) \<Rightarrow> (r, w'', (info, res) # called))))"

definition Stop ::
  "sorter \<Rightarrow> 'w Methods \<Rightarrow> Container \<Rightarrow> 'w \<Rightarrow> error option \<times> Container \<times> 'w \<times> calls" where
  "Stop srt m c w =
     (if \<not> started c then (None, c, w, [])
      else case stopLoop m (getSortedComponents srt c True) w None of
             (r, w', called) \<Rightarrow> (r, c\<lparr>started := False\<rparr>, w', called))"

section \<open>Notions the properties are stated with\<close>

text \<open>
  Both \<open>initLoop\<close> and \<open>startLoop\<close> are instances of one loop over the visit order,
  given the interface probe \<open>probe\<close> and the wrapping \<open>wrap\<close> of a callback's error.
\<close>

fun phaseLoop ::
  "(inst \<Rightarrow> 'w callback option) \<Rightarrow> (string \<Rightarrow> error \<Rightarrow> error) \<Rightarrow> ComponentInfo list \<Rightarrow> 'w
     \<Rightarrow> error option \<times> 'w \<times> calls" where
  "phaseLoop probe wrap [] w = (None, w, [])"
| "phaseLoop probe wrap (info # rest) w =
     (case probe (Instance info) of
        None \<Rightarrow> phaseLoop probe wrap rest w
      | Some cb \<Rightarrow>
          (case cb w of
             (Some err, w') \<Rightarrow> (Some (wrap (Name info) err), w', [(info, Some err)])
           | (None, w') \<Rightarrow>
               (case phaseLoop probe wrap rest w' of
                  (r, w'', called) \<Rightarrow> (r, w'', (info, None) # called))))"

text \<open>
  \<open>succeeds probe infos w w1\<close>: run in order from the world \<open>w\<close>, the callbacks of the
  components of \<open>infos\<close> that implement the interface all return nil, and they leave
  the world \<open>w1\<close>.
\<close>

fun succeeds :: "(inst \<Rightarrow> 'w callback option) \<Rightarrow> ComponentInfo list \<Rightarrow> 'w \<Rightarrow> 'w \<Rightarrow> bool" where
  "succeeds probe [] w w1 = (w1 = w)"
| "succeeds probe (info # rest) w w1 =
     (case probe (Instance info) of
        None \<Rightarrow> succeeds probe rest w w1
      | Some cb \<Rightarrow>
          (case cb w of
             (None, w') \<Rightarrow> succeeds probe rest w' w1
           | (Some err, w') \<Rightarrow> False))"

text \<open>The components of a visit order that implement the interface of a phase.\<close>

definition implementing :: "(inst \<Rightarrow> 'w callback option) \<Rightarrow> ComponentInfo list \<Rightarrow> ComponentInfo list" where
  "implementing probe infos = filter (\<lambda>info. probe (Instance info) \<noteq> None) infos"

text \<open>The failures among the invoked \<open>Stop\<close> callbacks, each wrapped as \<open>Stop\<close> wraps it.\<close>

fun failures :: "calls \<Rightarrow> error list" where
  "failures [] = []"
| "failures ((info, None) # cs) = failures cs"
| "failures ((info, Some err) # cs) = ShutdownFailed (Name info) err # failures cs"

text \<open>\<open>carries e f\<close>: the failure \<open>f\<close> is the error \<open>e\<close> or is wrapped inside it.\<close>

fun carries :: "error \<Rightarrow> error \<Rightarrow> bool" where
  "carries (AutowireFailed n e) f = (AutowireFailed n e = f \<or> carries e f)"
| "carries (InitFailed n e) f = (InitFailed n e = f \<or> carries e f)"
| "carries (StartupFailed n e) f = (StartupFailed n e = f \<or> carries e f)"
| "carries (ShutdownFailed n e) f = (ShutdownFailed n e = f \<or> carries e f)"
| "carries e f = (e = f)"

text \<open>
  The outcomes of one field's directive, as \<open>injectFields\<close> returns them for a
  one-field struct: the field is set to the resolved reference (\<open>field.Set\<close> panics if
  it is not assignable), the field is left as it is with no error, or injection fails
  with the error that names the field.
\<close>

definition bindField :: "(rtype \<Rightarrow> rtype \<Rightarrow> bool) \<Rightarrow> Field \<Rightarrow> inst \<Rightarrow> injectResult \<times> Field list" where
  "bindField asg f d =
     (if asg (dynType d) (ftype f) then (Injected, [f\<lparr>fval := Some d\<rparr>]) else (SetPanic, [f]))"

definition leaveUnset :: "Field \<Rightarrow> injectResult \<times> Field list" where
  "leaveUnset f = (Injected, [f])"

definition fatal :: "Field \<Rightarrow> error \<Rightarrow> injectResult \<times> Field list" where
  "fatal f err = (InjectError (AutowireFailed (fname f) err), [f])"

text \<open>
  Resolution by the field's declared capability looks the field's type up in the type
  index; resolution by a literal name looks the name up in the store and requires the
  component found to be assignable to the field. \<open>swallow\<close> says whether a failure
  leaves the field unset instead of being fatal.
\<close>

definition byCapability ::
  "(rtype \<Rightarrow> rtype \<Rightarrow> bool) \<Rightarrow> Container \<Rightarrow> Field \<Rightarrow> bool \<Rightarrow> injectResult \<times> Field list" where
  "byCapability asg c f swallow =
     (case componentsByType c (ftype f) of
        None \<Rightarrow> if swallow then leaveUnset f else fatal f (TypeNotFound (ftype f))
      | Some info \<Rightarrow> bindField asg f (Instance info))"

definition byLiteralName ::
  "(rtype \<Rightarrow> rtype \<Rightarrow> bool) \<Rightarrow> Container \<Rightarrow> Field \<Rightarrow> string \<Rightarrow> bool
     \<Rightarrow> injectResult \<times> Field list" where
  "byLiteralName asg c f name swallow =
     (case componentsByName c name of
        None \<Rightarrow> if swallow then leaveUnset f else fatal f (ComponentNotFound name)
      | Some info \<Rightarrow>
          if asg (dynType (Instance info)) (ftype f) then bindField asg f (Instance info)
          else if swallow then leaveUnset f
          else fatal f (NotAssignable name (dynType (Instance info)) (ftype f)))"

text \<open>
  The precedence of the directive grammar as the specification words it:
  \<open>claimedDirective\<close>; and with the two differences of the code, \<open>amendedDirective\<close>:
  the suffix counts only behind a non-empty name, and the name \<open>required\<close> in front of
  the suffix resolves by capability.
\<close>

definition endsWithOptional :: "string \<Rightarrow> bool" where
  "endsWithOptional tag \<longleftrightarrow> length tag \<ge> 9 \<and> drop (length tag - 9) tag = '',optional''"

definition claimedDirective ::
  "(rtype \<Rightarrow> rtype \<Rightarrow> bool) \<Rightarrow> Container \<Rightarrow> Field \<Rightarrow> string \<Rightarrow> injectResult \<times> Field list" where
  "claimedDirective asg c f tag =
     (if tag = ''optional'' \<or> tag = ''?'' then byCapability asg c f True
      else if endsWithOptional tag
        then byLiteralName asg c f (take (length tag - 9) tag) True
      else if tag = ''required'' \<or> tag = [] then byCapability asg c f False
      else byLiteralName asg c f tag False)"

definition amendedDirective ::
  "(rtype \<Rightarrow> rtype \<Rightarrow> bool) \<Rightarrow> Container \<Rightarrow> Field \<Rightarrow> string \<Rightarrow> injectResult \<times> Field list" where
  "amendedDirective asg c f tag =
     (if tag = ''optional'' \<or> tag = ''?'' then byCapability asg c f True
      else if length tag > 9 \<and> endsWithOptional tag
        then (if take (length tag - 9) tag = ''required'' then byCapability asg c f True
              else byLiteralName asg c f (take (length tag - 9) tag) True)
      else if tag = ''required'' \<or> tag = [] then byCapability asg c f False
      else byLiteralName asg c f tag False)"

text \<open>
  \<open>optionalDirective\<close> is the test \<open>injectComponentUnsafe\<close> makes before it swallows an
  error. \<open>skipped\<close> are the fields the loop passes over: those without an \<open>autowire\<close>
  tag and those that cannot be set. \<open>nonNilStore\<close> says that no instance indexed by the
  store is a typed nil pointer. \<open>fieldAfter asg c f f'\<close> relates a field before and
  after injection: it is untouched or set, and if it can be set and its directive is
  not optional, it holds the reference the directive resolves to, which is not a nil
  pointer and is assignable to the field's type.
\<close>

definition skipped :: "Field \<Rightarrow> bool" where
  "skipped f \<longleftrightarrow> autowire f = None \<or> \<not> canSet f"

definition nonNilStore :: "Container \<Rightarrow> bool" where
  "nonNilStore c \<longleftrightarrow>
     (\<forall>name info. componentsByName c name = Some info \<longrightarrow> ref (Instance info) \<noteq> 0)
     \<and> (\<forall>t info. componentsByType c t = Some info \<longrightarrow> ref (Instance info) \<noteq> 0)"

definition optionalDirective :: "string \<Rightarrow> bool" where
  "optionalDirective tag \<longleftrightarrow> tag = ''optional'' \<or> tag = ''?'' \<or> hasOptionalSuffix tag"

definition fieldAfter :: "(rtype \<Rightarrow> rtype \<Rightarrow> bool) \<Rightarrow> Container \<Rightarrow> Field \<Rightarrow> Field \<Rightarrow> bool" where
  "fieldAfter asg c f f' \<longleftrightarrow>
     (f' = f \<or> (\<exists>d. f' = f\<lparr>fval := Some d\<rparr>))
     \<and> (\<forall>tag. autowire f = Some tag \<and> canSet f \<and> \<not> optionalDirective tag \<longrightarrow>
           (\<exists>d. fval f' = Some d \<and> ref d \<noteq> 0 \<and> asg (dynType d) (ftype f)
                \<and> resolveDependencyUnsafe asg c (ftype f) tag = Inr (Some d)))"

text \<open>
  \<open>providers infos t\<close> are the descriptors that export the capability \<open>t\<close>, in
  registration order; \<open>chosen\<close> is the provider the loop selects from a group it
  accepts; \<open>groupError t comps e\<close> says that \<open>e\<close> is the error the loop returns for the
  group \<open>comps\<close> of \<open>t\<close>, with the names it carries.
\<close>

definition providers :: "ComponentInfo list \<Rightarrow> rtype \<Rightarrow> ComponentInfo list" where
  "providers infos t = filter (\<lambda>info. t \<in> set (ExportedTypes info)) infos"

definition chosen :: "ComponentInfo list \<Rightarrow> ComponentInfo" where
  "chosen comps = (if length comps = 1 then hd comps else hd (filter IsPrimary comps))"

definition groupError :: "rtype \<Rightarrow> ComponentInfo list \<Rightarrow> error \<Rightarrow> bool" where
  "groupError t comps e \<longleftrightarrow>
     length comps \<noteq> 1
     \<and> (filter IsPrimary comps = [] \<and> e = AmbiguousComponents t (map Name comps)
        \<or> length (filter IsPrimary comps) > 1
          \<and> e = MultiplePrimary t (map Name (filter IsPrimary comps)))"

section \<open>Example components\<close>

definition descriptor ::
  "nat \<Rightarrow> string \<Rightarrow> string \<Rightarrow> int \<Rightarrow> rtype list \<Rightarrow> bool \<Rightarrow> ComponentInfo" where
  "descriptor r tname name prio exported primary =
     \<lparr>Instance = \<lparr>ref = r, dynType = TPtr (TNamed tname)\<rparr>,
      InstanceType = Some (TPtr (TNamed tname)), Name = name, Priority = prio,
      ExportedTypes = TPtr (TNamed tname) # exported, IsPrimary = primary\<rparr>"

definition compA :: ComponentInfo where
  "compA = descriptor 2 ''main.A'' ''a'' 0 [TNamed ''main.I''] False"

definition compB :: ComponentInfo where
  "compB = descriptor 3 ''main.B'' ''b'' 0 [TNamed ''main.I''] False"

text \<open>
  Callbacks for the examples, on a counter of the callbacks run: every component
  implements the three interfaces, \<open>Init\<close> succeeds, \<open>Start\<close> fails on the components
  whose reference is in \<open>badStart\<close>, \<open>Stop\<close> on those in \<open>badStop\<close>.
\<close>

definition callback :: "nat set \<Rightarrow> string \<Rightarrow> inst \<Rightarrow> nat callback option" where
  "callback bad what i =
     Some (\<lambda>w. (if ref i \<in> bad then Some (UserError (what @ typeString (dynType i))) else None,
                Suc w))"

definition methods :: "nat set \<Rightarrow> nat set \<Rightarrow> nat Methods" where
  "methods badStart badStop =
     \<lparr>InitOf = callback {} ''init '', StartOf = callback badStart ''start '',
      StopOf = callback badStop ''stop ''\<rparr>"

definition failing :: "nat set \<Rightarrow> nat Methods" where
  "failing bad =
     \<lparr>InitOf = callback bad ''init '', StartOf = callback bad ''start '',
      StopOf = callback {} ''stop ''\<rparr>"

definition compNil :: ComponentInfo where
  "compNil = (descriptor 0 ''main.N'' ''n'' 0 [TNamed ''main.I''] False)"

definition storeNil :: Container where
  "storeNil = snd (validateTypeRegistrations [TPtr (TNamed ''main.N''), TNamed ''main.I'']
                     (registerAll NewContainer [compNil]))"

definition storeAB :: Container where
  "storeAB = registerAll NewContainer [compA, compB]"

definition compHigh :: ComponentInfo where
  "compHigh = descriptor 4 ''main.H'' ''h'' 200 [] False"

definition storeHAB :: Container where
  "storeHAB = registerAll NewContainer [compA, compHigh, compB]"

definition svc :: inst where
  "svc = \<lparr>ref = 5, dynType = TPtr (TNamed ''main.Svc'')\<rparr>"

definition compDup :: ComponentInfo where
  "compDup = descriptor 6 ''main.D'' ''d'' 0 [TNamed ''main.I'', TNamed ''main.I''] False"

definition implementsI :: "rtype \<Rightarrow> rtype \<Rightarrow> bool" where
  "implementsI dyn t \<longleftrightarrow> dyn = t \<or> t = TNamed ''main.I''"

definition compR :: ComponentInfo where
  "compR = descriptor 7 ''main.R'' ''required'' 0 [] False"

definition storeR :: Container where
  "storeR = snd (validateTypeRegistrations [TPtr (TNamed ''main.R'')]
                   (registerAll NewContainer [compR]))"

definition fieldI :: "string \<Rightarrow> bool \<Rightarrow> Field" where
  "fieldI tag settable =
     \<lparr>fname = ''Dep'', ftype = TNamed ''main.I'', autowire = Some tag, canSet = settable,
      fval = None\<rparr>"

definition storeA :: Container where
  "storeA = snd (validateTypeRegistrations [TPtr (TNamed ''main.A''), TNamed ''main.I'']
                   (registerAll NewContainer [compA]))"

section \<open>The descriptor store\<close>

lemma registerComponent_index:
  assumes "\<forall>n. n \<in> dom (componentsByName c) \<longleftrightarrow> n \<in> Name ` set (components c)"
  shows "n \<in> dom (componentsByName (snd (registerComponent c info)))
         \<longleftrightarrow> n \<in> Name ` set (components (snd (registerComponent c info)))"
  using assms by (auto simp: registerComponent_def split: option.splits)

lemma registerAll_index:
  assumes "\<forall>n. n \<in> dom (componentsByName c) \<longleftrightarrow> n \<in> Name ` set (components c)"
  shows "n \<in> dom (componentsByName (registerAll c infos))
         \<longleftrightarrow> n \<in> Name ` set (components (registerAll c infos))"
  using assms
proof (induction infos arbitrary: c)
  case Nil
  then show ?case by simp
next
  case (Cons info infos)
  have "\<forall>n. n \<in> dom (componentsByName (snd (registerComponent c info)))
         \<longleftrightarrow> n \<in> Name ` set (components (snd (registerComponent c info)))"
    using registerComponent_index [OF Cons.prems] by blast
  from Cons.IH [OF this] show ?case by simp
qed

text \<open>
  C7. In a store built by registrations, registering a descriptor whose name equals the
  name of a descriptor already in the ordered collection returns the duplicate-name
  error and leaves the store as it was: the ordered collection, the name index and hence
  the first registration are unchanged.
\<close>

theorem register_duplicate_rejected:
  assumes "c = registerAll NewContainer infos"
    and "d \<in> set (components c)"
    and "Name info = Name d"
  shows "\<exists>existing. componentsByName c (Name info) = Some existing
           \<and> registerComponent c info
               = (Some (DuplicateName (Name info) (InstanceType existing) (InstanceType info)), c)"
proof -
  have "\<forall>n. n \<in> dom (componentsByName NewContainer)
          \<longleftrightarrow> n \<in> Name ` set (components NewContainer)"
    by (simp add: NewContainer_def)
  then have "Name info \<in> dom (componentsByName c)
          \<longleftrightarrow> Name info \<in> Name ` set (components c)"
    unfolding assms(1) by (rule registerAll_index)
  moreover have "Name info \<in> Name ` set (components c)"
    using assms(2,3) by auto
  ultimately obtain existing where "componentsByName c (Name info) = Some existing"
    by auto
  then show ?thesis by (simp add: registerComponent_def)
qed

theorem register_duplicate_rejected_witness:
  "registerComponent (registerAll NewContainer [compA]) (compB\<lparr>Name := ''a''\<rparr>)
     = (Some (DuplicateName ''a'' (InstanceType compA) (InstanceType compB)),
        registerAll NewContainer [compA])"
  using register_duplicate_rejected
    [of "registerAll NewContainer [compA]" "[compA]" compA "compB\<lparr>Name := ''a''\<rparr>"]
  by (simp add: registerComponent_def NewContainer_def compA_def compB_def descriptor_def)

section \<open>The lifecycle loops\<close>

lemma initLoop_phaseLoop: "initLoop m infos w = phaseLoop (InitOf m) InitFailed infos w"
  by (induction infos arbitrary: w) (auto split: option.splits prod.splits)

lemma startLoop_phaseLoop: "startLoop m infos w = phaseLoop (StartOf m) StartupFailed infos w"
  by (induction infos arbitrary: w) (auto split: option.splits prod.splits)

lemma phaseLoop_success:
  "phaseLoop probe wrap infos w = (None, w', called) \<Longrightarrow>
     called = map (\<lambda>i. (i, None)) (implementing probe infos)"
proof (induction infos arbitrary: w called)
  case Nil
  then show ?case by (simp add: implementing_def)
next
  case (Cons info rest)
  show ?case
  proof (cases "probe (Instance info)")
    case None
    with Cons show ?thesis by (simp add: implementing_def)
  next
    case (Some cb)
    obtain res w1 where cb: "cb w = (res, w1)" by (cases "cb w")
    obtain r2 w2 called2 where rec: "phaseLoop probe wrap rest w1 = (r2, w2, called2)"
      by (cases "phaseLoop probe wrap rest w1") auto
    from Cons.prems Some cb rec
    have "res = None" "r2 = None" "w2 = w'" "called = (info, None) # called2"
      by (auto split: option.splits)
    with Cons.IH [of w1 called2] rec Some show ?thesis by (simp add: implementing_def)
  qed
qed

lemma phaseLoop_failure:
  "phaseLoop probe wrap infos w = (Some e, w', called) \<Longrightarrow>
     \<exists>pre info post err.
        infos = pre @ info # post \<and> probe (Instance info) \<noteq> None
        \<and> e = wrap (Name info) err
        \<and> called = map (\<lambda>i. (i, None)) (implementing probe pre) @ [(info, Some err)]"
proof (induction infos arbitrary: w called)
  case Nil
  then show ?case by simp
next
  case (Cons info rest)
  show ?case
  proof (cases "probe (Instance info)")
    case None
    with Cons.prems have "phaseLoop probe wrap rest w = (Some e, w', called)" by simp
    from Cons.IH [OF this] obtain pre i post err where
      h: "rest = pre @ i # post" "probe (Instance i) \<noteq> None" "e = wrap (Name i) err"
         "called = map (\<lambda>i. (i, None)) (implementing probe pre) @ [(i, Some err)]"
      by blast
    have "info # rest = (info # pre) @ i # post" using h(1) by simp
    moreover have "called = map (\<lambda>i. (i, None)) (implementing probe (info # pre)) @ [(i, Some err)]"
      using h(4) None by (simp add: implementing_def)
    ultimately show ?thesis using h(2,3) by blast
  next
    case (Some cb)
    obtain res w1 where cb: "cb w = (res, w1)" by (cases "cb w")
    show ?thesis
    proof (cases res)
      case None
      obtain r2 w2 called2 where rec: "phaseLoop probe wrap rest w1 = (r2, w2, called2)"
        by (cases "phaseLoop probe wrap rest w1") auto
      from Cons.prems Some cb None rec
      have eq: "r2 = Some e" "w2 = w'" "called = (info, None) # called2" by auto
      from Cons.IH [of w1 called2] rec eq obtain pre i post err where
        h: "rest = pre @ i # post" "probe (Instance i) \<noteq> None" "e = wrap (Name i) err"
           "called2 = map (\<lambda>i. (i, None)) (implementing probe pre) @ [(i, Some err)]"
        by blast
      have "info # rest = (info # pre) @ i # post" using h(1) by simp
      moreover have "called = map (\<lambda>i. (i, None)) (implementing probe (info # pre)) @ [(i, Some err)]"
        using h(4) Some eq by (simp add: implementing_def)
      ultimately show ?thesis using h(2,3) by blast
    next
      case (Some err)
      with Cons.prems \<open>probe (Instance info) = Some cb\<close> cb
      have "e = wrap (Name info) err" "called = [(info, Some err)]" by auto
      moreover have "info # rest = [] @ info # rest" by simp
      moreover have "map (\<lambda>i. (i, None)) (implementing probe []) = ([] :: calls)"
        by (simp add: implementing_def)
      ultimately show ?thesis using \<open>probe (Instance info) = Some cb\<close>
        by (metis append_Nil option.distinct(1))
    qed
  qed
qed

lemma phaseLoop_error_entry:
  assumes "phaseLoop probe wrap infos w = (r, w', called)"
    and "(info, Some err) \<in> set called"
  shows "\<exists>pre post.
           infos = pre @ info # post \<and> probe (Instance info) \<noteq> None
           \<and> r = Some (wrap (Name info) err)
           \<and> called = map (\<lambda>i. (i, None)) (implementing probe pre) @ [(info, Some err)]"
proof (cases r)
  case None
  with assms(1) have "called = map (\<lambda>i. (i, None)) (implementing probe infos)"
    by (simp add: phaseLoop_success)
  with assms(2) show ?thesis by auto
next
  case (Some e)
  with assms(1) have "phaseLoop probe wrap infos w = (Some e, w', called)" by simp
  from phaseLoop_failure [OF this] obtain pre i post err' where
    h: "infos = pre @ i # post" "probe (Instance i) \<noteq> None" "e = wrap (Name i) err'"
       "called = map (\<lambda>i. (i, None)) (implementing probe pre) @ [(i, Some err')]"
    by blast
  from assms(2) h(4) have "i = info" "err' = err" by auto
  with h Some show ?thesis by blast
qed

lemma phaseLoop_total:
  assumes "succeeds probe pre w w1"
    and "probe (Instance info) = Some cb"
    and "cb w1 = (Some err, w2)"
  shows "phaseLoop probe wrap (pre @ info # post) w
           = (Some (wrap (Name info) err), w2,
              map (\<lambda>i. (i, None)) (implementing probe pre) @ [(info, Some err)])"
  using assms(1)
proof (induction pre arbitrary: w)
  case Nil
  with assms(2,3) show ?case by (simp add: implementing_def)
next
  case (Cons i pre)
  show ?case
  proof (cases "probe (Instance i)")
    case None
    with Cons.prems have "succeeds probe pre w w1" by simp
    from Cons.IH [OF this] None show ?thesis by (simp add: implementing_def)
  next
    case (Some cbi)
    obtain res w' where cbi: "cbi w = (res, w')" by (cases "cbi w")
    with Cons.prems Some have "res = None" "succeeds probe pre w' w1"
      by (auto split: option.splits)
    with Cons.IH [of w'] Some cbi show ?thesis by (simp add: implementing_def)
  qed
qed

text \<open>
  C6. Let the visit order of \<open>Initialize\<close> split at a component \<open>info\<close>, let the \<open>Init\<close>
  callbacks of the components before it all return nil, and let the \<open>Init\<close> callback of
  \<open>info\<close>, run in the world they leave, return an error. Then \<open>Initialize\<close> returns the
  error that names \<open>info\<close> and wraps the callback's error, and the callbacks invoked are
  those of the implementing components before \<open>info\<close> followed by that of \<open>info\<close>: no
  callback of a component scheduled after it is invoked. The same holds of \<open>Start\<close> on a
  container that is not started, which it returns unchanged.
\<close>

theorem phase_aborts_at_first_failure:
  "(getSortedComponents srt c False = pre @ info # post
      \<and> succeeds (InitOf m) pre w w1
      \<and> InitOf m (Instance info) = Some cb \<and> cb w1 = (Some err, w2) \<longrightarrow>
    Initialize srt m c w
      = (Some (InitFailed (Name info) err), w2,
         map (\<lambda>i. (i, None)) (implementing (InitOf m) pre) @ [(info, Some err)]))
   \<and> (\<not> started c \<and> getSortedComponents srt c False = pre @ info # post
      \<and> succeeds (StartOf m) pre w w1
      \<and> StartOf m (Instance info) = Some cb \<and> cb w1 = (Some err, w2) \<longrightarrow>
    Start srt m c w
      = (Some (StartupFailed (Name info) err), c, w2,
         map (\<lambda>i. (i, None)) (implementing (StartOf m) pre) @ [(info, Some err)]))"
proof (intro conjI impI)
  assume a: "getSortedComponents srt c False = pre @ info # post
      \<and> succeeds (InitOf m) pre w w1
      \<and> InitOf m (Instance info) = Some cb \<and> cb w1 = (Some err, w2)"
  then have "succeeds (InitOf m) pre w w1" "InitOf m (Instance info) = Some cb"
    "cb w1 = (Some err, w2)" by simp_all
  then have "phaseLoop (InitOf m) InitFailed (pre @ info # post) w
      = (Some (InitFailed (Name info) err), w2,
         map (\<lambda>i. (i, None)) (implementing (InitOf m) pre) @ [(info, Some err)])"
    by (rule phaseLoop_total)
  with a show "Initialize srt m c w
      = (Some (InitFailed (Name info) err), w2,
         map (\<lambda>i. (i, None)) (implementing (InitOf m) pre) @ [(info, Some err)])"
    by (simp add: Initialize_def initLoop_phaseLoop)
next
  assume a: "\<not> started c \<and> getSortedComponents srt c False = pre @ info # post
      \<and> succeeds (StartOf m) pre w w1
      \<and> StartOf m (Instance info) = Some cb \<and> cb w1 = (Some err, w2)"
  then have "succeeds (StartOf m) pre w w1" "StartOf m (Instance info) = Some cb"
    "cb w1 = (Some err, w2)" by simp_all
  then have "phaseLoop (StartOf m) StartupFailed (pre @ info # post) w
      = (Some (StartupFailed (Name info) err), w2,
         map (\<lambda>i. (i, None)) (implementing (StartOf m) pre) @ [(info, Some err)])"
    by (rule phaseLoop_total)
  with a show "Start srt m c w
      = (Some (StartupFailed (Name info) err), c, w2,
         map (\<lambda>i. (i, None)) (implementing (StartOf m) pre) @ [(info, Some err)])"
    by (simp add: Start_def startLoop_phaseLoop)
qed

lemma storeHAB_eval: "components storeHAB = [compA, compHigh, compB] \<and> \<not> started storeHAB"
  by (simp add: storeHAB_def registerComponent_def NewContainer_def compA_def compB_def compHigh_def descriptor_def)

lemma sortedHAB: "getSortedComponents insertionSortLessFunc storeHAB False = [compHigh, compA, compB]"
  by (simp add: getSortedComponents_def storeHAB_eval insertionSortLessFunc_def priorityLess_def compA_def compB_def compHigh_def descriptor_def)

lemma failingA:
  "InitOf (failing {2}) (Instance compA) = Some (\<lambda>w. (Some (UserError ''init *main.A''), Suc w))"
  "StartOf (failing {2}) (Instance compA) = Some (\<lambda>w. (Some (UserError ''start *main.A''), Suc w))"
  "succeeds (InitOf (failing {2})) [compHigh] 0 (Suc 0)"
  "succeeds (StartOf (failing {2})) [compHigh] 0 (Suc 0)"
  "implementing (InitOf (failing {2})) [compHigh] = [compHigh]"
  "implementing (StartOf (failing {2})) [compHigh] = [compHigh]"
  "Name compA = ''a''"
  by (simp_all add: failing_def callback_def implementing_def compA_def compHigh_def
        descriptor_def)

theorem phase_aborts_at_first_failure_witness:
  "Initialize insertionSortLessFunc (failing {2}) storeHAB 0
     = (Some (InitFailed ''a'' (UserError ''init *main.A'')), 2,
        [(compHigh, None), (compA, Some (UserError ''init *main.A''))])
   \<and> Start insertionSortLessFunc (failing {2}) storeHAB 0
     = (Some (StartupFailed ''a'' (UserError ''start *main.A'')), storeHAB, 2,
        [(compHigh, None), (compA, Some (UserError ''start *main.A''))])"
proof -
  have i: "getSortedComponents insertionSortLessFunc storeHAB False
             = [compHigh] @ compA # [compB]"
    by (simp add: sortedHAB)
  have n: "\<not> started storeHAB" by (simp add: storeHAB_eval)
  have ci: "(\<lambda>w. (Some (UserError ''init *main.A''), Suc w)) (Suc 0)
              = (Some (UserError ''init *main.A''), 2::nat)" by simp
  have cs: "(\<lambda>w. (Some (UserError ''start *main.A''), Suc w)) (Suc 0)
              = (Some (UserError ''start *main.A''), 2::nat)" by simp
  from phase_aborts_at_first_failure
    [of insertionSortLessFunc storeHAB "[compHigh]" compA "[compB]" "failing {2}" 0 "Suc 0"
        "\<lambda>w. (Some (UserError ''init *main.A''), Suc w)" "UserError ''init *main.A''" 2]
    i failingA(1,3) ci
  have "Initialize insertionSortLessFunc (failing {2}) storeHAB 0
     = (Some (InitFailed (Name compA) (UserError ''init *main.A'')), 2,
        map (\<lambda>i. (i, None)) (implementing (InitOf (failing {2})) [compHigh])
          @ [(compA, Some (UserError ''init *main.A''))])"
    by blast
  moreover from phase_aborts_at_first_failure
    [of insertionSortLessFunc storeHAB "[compHigh]" compA "[compB]" "failing {2}" 0 "Suc 0"
        "\<lambda>w. (Some (UserError ''start *main.A''), Suc w)" "UserError ''start *main.A''" 2]
    i n failingA(2,4) cs
  have "Start insertionSortLessFunc (failing {2}) storeHAB 0
     = (Some (StartupFailed (Name compA) (UserError ''start *main.A'')), storeHAB, 2,
        map (\<lambda>i. (i, None)) (implementing (StartOf (failing {2})) [compHigh])
          @ [(compA, Some (UserError ''start *main.A''))])"
    by blast
  ultimately show ?thesis by (simp add: failingA)
qed



lemma storeAB_eval: "components storeAB = [compA, compB] \<and> \<not> started storeAB"
  by (simp add: storeAB_def registerComponent_def NewContainer_def compA_def compB_def descriptor_def)

lemma sortedAB:
  "getSortedComponents insertionSortLessFunc storeAB asc = [compA, compB]"
  "getSortedComponents insertionSortLessFunc (storeAB\<lparr>started := True\<rparr>) asc = [compA, compB]"
  by (simp_all add: getSortedComponents_def storeAB_eval insertionSortLessFunc_def priorityLess_def compA_def compB_def descriptor_def)







lemma stopLoop_outcome:
  "stopLoop m infos w lastErr = (r, w', called) \<Longrightarrow>
     map fst called = implementing (StopOf m) infos
     \<and> r = (if failures called = [] then lastErr else Some (last (failures called)))"
proof (induction infos arbitrary: w lastErr called r w')
  case Nil
  then show ?case by (simp add: implementing_def)
next
  case (Cons info rest)
  show ?case
  proof (cases "StopOf m (Instance info)")
    case None
    with Cons show ?thesis by (simp add: implementing_def)
  next
    case (Some cb)
    obtain res w1 where cb: "cb w = (res, w1)" by (cases "cb w")
    let ?le = "case res of Some err \<Rightarrow> Some (ShutdownFailed (Name info) err) | None \<Rightarrow> lastErr"
    obtain r2 w2 called2 where rec: "stopLoop m rest w1 ?le = (r2, w2, called2)"
      by (cases "stopLoop m rest w1 ?le") auto
    from Cons.prems Some cb rec
    have eq: "r = r2" "called = (info, res) # called2" by auto
    from Cons.IH [OF rec]
    have ih: "map fst called2 = implementing (StopOf m) rest"
      "r2 = (if failures called2 = [] then ?le else Some (last (failures called2)))" by simp_all
    show ?thesis
    proof (cases res)
      case None
      with eq ih Some show ?thesis by (simp add: implementing_def)
    next
      case (Some err)
      with eq ih \<open>StopOf m (Instance info) = Some cb\<close> show ?thesis
        by (simp add: implementing_def)
    qed
  qed
qed

text \<open>
  C3 as the code has it. \<open>Stop\<close> on a started container invokes the \<open>Stop\<close> callback of
  every component of the visit order that implements \<open>Stoppable\<close>, whatever the
  callbacks return, and clears the \<open>started\<close> flag; the error it returns is nil when no
  callback failed and otherwise the failure of the last failing component alone.
\<close>

theorem stop_visits_all_returns_last:
  assumes "started c"
    and "Stop srt m c w = (r, c', w', called)"
  shows "map fst called = implementing (StopOf m) (getSortedComponents srt c True)
         \<and> r = (if failures called = [] then None else Some (last (failures called)))
         \<and> c' = c\<lparr>started := False\<rparr>"
proof -
  obtain r2 w2 called2 where
    loop: "stopLoop m (getSortedComponents srt c True) w None = (r2, w2, called2)"
    by (cases "stopLoop m (getSortedComponents srt c True) w None") auto
  with assms have "r = r2" "called = called2" "c' = c\<lparr>started := False\<rparr>"
    by (auto simp: Stop_def)
  with stopLoop_outcome [OF loop] show ?thesis by simp
qed

lemma stopAB:
  "Stop insertionSortLessFunc (methods {} {2, 3}) (storeAB\<lparr>started := True\<rparr>) 0
     = (Some (ShutdownFailed ''b'' (UserError ''stop *main.B'')),
        storeAB\<lparr>started := False\<rparr>, 2,
        [(compA, Some (UserError ''stop *main.A'')), (compB, Some (UserError ''stop *main.B''))])"
  by (simp add: Stop_def sortedAB methods_def callback_def)
     (simp add: compA_def compB_def descriptor_def)

theorem stop_visits_all_returns_last_witness:
  "map fst [(compA, Some (UserError ''stop *main.A'')), (compB, Some (UserError ''stop *main.B''))]
     = implementing (StopOf (methods {} {2, 3}))
         (getSortedComponents insertionSortLessFunc (storeAB\<lparr>started := True\<rparr>) True)
   \<and> fst (Stop insertionSortLessFunc (methods {} {2, 3}) (storeAB\<lparr>started := True\<rparr>) 0)
       = Some (ShutdownFailed ''b'' (UserError ''stop *main.B''))"
  using stop_visits_all_returns_last
    [of "storeAB\<lparr>started := True\<rparr>" insertionSortLessFunc "methods {} {2, 3}" 0
        "Some (ShutdownFailed ''b'' (UserError ''stop *main.B''))"
        "storeAB\<lparr>started := False\<rparr>" 2
        "[(compA, Some (UserError ''stop *main.A'')), (compB, Some (UserError ''stop *main.B''))]"]
  by (simp add: stopAB)

text \<open>
  C3 as stated fails. Components \<open>a\<close> and \<open>b\<close> both fail their \<open>Stop\<close> callback; both
  callbacks are invoked, and the error returned is the failure of \<open>b\<close>, which does not
  carry the failure of \<open>a\<close>.
\<close>

theorem stop_aggregates_all_counterexample:
  "Stop insertionSortLessFunc (methods {} {2, 3}) (storeAB\<lparr>started := True\<rparr>) 0
     = (Some (ShutdownFailed ''b'' (UserError ''stop *main.B'')),
        storeAB\<lparr>started := False\<rparr>, 2,
        [(compA, Some (UserError ''stop *main.A'')), (compB, Some (UserError ''stop *main.B''))])
   \<and> \<not> carries (ShutdownFailed ''b'' (UserError ''stop *main.B''))
                (ShutdownFailed ''a'' (UserError ''stop *main.A''))"
  by (simp add: stopAB)

section \<open>The visit orders\<close>

lemma sink_mset: "mset (sink lt x ys) = add_mset x (mset ys)"
  by (induction ys) auto

lemma fold_sink_mset: "mset (fold (sink lt) xs acc) = mset xs + mset acc"
  by (induction xs arbitrary: acc) (auto simp: sink_mset)

lemma sink_set: "set (sink lt x ys) = insert x (set ys)"
  by (induction ys) auto

lemma sink_sorted:
  "sorted_wrt (\<lambda>a b. \<not> priorityLess asc a b) ys \<Longrightarrow>
   sorted_wrt (\<lambda>a b. \<not> priorityLess asc a b) (sink (priorityLess asc) x ys)"
proof (induction ys)
  case Nil
  then show ?case by simp
next
  case (Cons y ys)
  show ?case
  proof (cases "priorityLess asc x y")
    case True
    then have "\<not> priorityLess asc y x" by (auto simp: priorityLess_def split: if_splits)
    with True Cons show ?thesis by (auto simp: sink_set)
  next
    case False
    have "\<not> priorityLess asc x z" if "z \<in> set ys" for z
    proof -
      from Cons.prems that have "\<not> priorityLess asc y z" by simp
      with False show ?thesis by (auto simp: priorityLess_def split: if_splits)
    qed
    with False Cons.prems show ?thesis by simp
  qed
qed

lemma fold_sink_sorted:
  "sorted_wrt (\<lambda>a b. \<not> priorityLess asc a b) acc \<Longrightarrow>
   sorted_wrt (\<lambda>a b. \<not> priorityLess asc a b) (fold (sink (priorityLess asc)) xs acc)"
  by (induction xs arbitrary: acc) (auto simp: sink_sorted)

lemma insertionSort_contract: "sortSliceContract insertionSortLessFunc"
  unfolding sortSliceContract_def insertionSortLessFunc_def
  by (auto simp: fold_sink_mset sorted_wrt_rev fold_sink_sorted)

lemma sink_keeps_ties:
  "filter (\<lambda>i. Priority i = p) (sink (priorityLess asc) x ys)
     = filter (\<lambda>i. Priority i = p) (x # ys)"
  by (induction ys) (auto simp: priorityLess_def)

lemma fold_sink_keeps_ties:
  "filter (\<lambda>i. Priority i = p) (fold (sink (priorityLess asc)) xs acc)
     = filter (\<lambda>i. Priority i = p) (rev xs @ acc)"
proof (induction xs arbitrary: acc)
  case Nil
  then show ?case by simp
next
  case (Cons x xs)
  have "filter (\<lambda>i. Priority i = p) (fold (sink (priorityLess asc)) xs (sink (priorityLess asc) x acc))
          = filter (\<lambda>i. Priority i = p) (rev xs @ sink (priorityLess asc) x acc)"
    by (rule Cons.IH)
  then show ?case by (simp add: sink_keeps_ties)
qed

lemma insertionSort_keeps_ties:
  "filter (\<lambda>i. Priority i = p) (insertionSortLessFunc (priorityLess asc) xs)
     = filter (\<lambda>i. Priority i = p) xs"
  by (simp add: insertionSortLessFunc_def fold_sink_keeps_ties [where acc = "[]", simplified] flip: rev_filter)

lemma sorted_same_mset:
  fixes xs ys :: "int list"
  assumes "sorted xs" "sorted ys" "mset xs = mset ys"
  shows "xs = ys"
proof -
  have "sort ys = xs" using assms by (intro properties_for_sort) auto
  moreover have "sort ys = ys" using assms(2) by (simp add: sorted_sort_id)
  ultimately show ?thesis by simp
qed

text \<open>
  C4 as the code has it. With a \<open>sort.Slice\<close> that meets its contract, the order in
  which \<open>Initialize\<close> and \<open>Start\<close> visit the components is a permutation of the registered
  components with priorities descending, the order of \<open>Stop\<close> is a permutation with
  priorities ascending, and the priorities met by \<open>Stop\<close> are those met by \<open>Start\<close> in
  reverse. The insertion sort that \<open>sort.Slice\<close> runs on at most twelve elements meets
  the contract and keeps the components of one priority in registration order in both
  directions.
\<close>

theorem visit_orders:
  "(sortSliceContract srt \<longrightarrow>
      mset (getSortedComponents srt c False) = mset (components c)
      \<and> sorted_wrt (\<lambda>a b. Priority a \<ge> Priority b) (getSortedComponents srt c False)
      \<and> mset (getSortedComponents srt c True) = mset (components c)
      \<and> sorted_wrt (\<lambda>a b. Priority a \<le> Priority b) (getSortedComponents srt c True)
      \<and> map Priority (getSortedComponents srt c True)
           = rev (map Priority (getSortedComponents srt c False)))
   \<and> sortSliceContract insertionSortLessFunc
   \<and> filter (\<lambda>i. Priority i = p) (getSortedComponents insertionSortLessFunc c asc)
       = filter (\<lambda>i. Priority i = p) (components c)"
proof (intro conjI impI)
  assume contract: "sortSliceContract srt"
  let ?down = "getSortedComponents srt c False" and ?up = "getSortedComponents srt c True"
  from contract show m1: "mset ?down = mset (components c)"
    and m2: "mset ?up = mset (components c)"
    by (simp_all add: sortSliceContract_def getSortedComponents_def)
  from contract have "sorted_wrt (\<lambda>a b. \<not> priorityLess False b a) ?down"
    and "sorted_wrt (\<lambda>a b. \<not> priorityLess True b a) ?up"
    by (simp_all add: sortSliceContract_def getSortedComponents_def)
  then show s1: "sorted_wrt (\<lambda>a b. Priority a \<ge> Priority b) ?down"
    and s2: "sorted_wrt (\<lambda>a b. Priority a \<le> Priority b) ?up"
    by (simp_all add: priorityLess_def not_less)
  have "sorted (map Priority ?up)" using s2 by (simp add: sorted_map)
  moreover have "sorted (rev (map Priority ?down))"
    using s1 by (simp add: sorted_wrt_rev sorted_wrt_map flip: rev_map)
  moreover have "mset (map Priority ?up) = mset (rev (map Priority ?down))"
    using m1 m2 by (metis mset_map mset_rev)
  ultimately show "map Priority ?up = rev (map Priority ?down)"
    by (rule sorted_same_mset)
next
  show "sortSliceContract insertionSortLessFunc" by (rule insertionSort_contract)
  show "filter (\<lambda>i. Priority i = p) (getSortedComponents insertionSortLessFunc c asc)
       = filter (\<lambda>i. Priority i = p) (components c)"
    by (simp add: getSortedComponents_def insertionSort_keeps_ties)
qed

theorem visit_orders_witness:
  "map Priority (getSortedComponents insertionSortLessFunc storeHAB True)
     = rev (map Priority (getSortedComponents insertionSortLessFunc storeHAB False))
   \<and> getSortedComponents insertionSortLessFunc storeHAB False = [compHigh, compA, compB]"
  using visit_orders [of insertionSortLessFunc storeHAB 0 False]
  by (simp add: sortedHAB)

text \<open>
  C4 as stated fails. Components \<open>a\<close> and \<open>b\<close> have the same priority: \<open>Start\<close> visits
  \<open>a\<close> then \<open>b\<close>, and \<open>Stop\<close> visits \<open>a\<close> then \<open>b\<close> as well, which is not the reverse.
\<close>

theorem stop_order_reverse_counterexample:
  "getSortedComponents insertionSortLessFunc storeAB False = [compA, compB]
   \<and> getSortedComponents insertionSortLessFunc storeAB True = [compA, compB]
   \<and> [compA, compB] \<noteq> rev [compA, compB]"
  by (simp add: sortedAB) (simp add: compA_def compB_def descriptor_def)

section \<open>Registration paths and exported types\<close>

lemma applyCall_keeps:
  "b_instance (applyCall call b) = b_instance b
   \<and> set (b_exportedTypes b) \<subseteq> set (b_exportedTypes (applyCall call b))"
  by (cases call) (auto simp: Name_b_def Priority_b_def Export_def Primary_def)

lemma fold_applyCall_keeps:
  "b_instance (fold applyCall calls b) = b_instance b
   \<and> set (b_exportedTypes b) \<subseteq> set (b_exportedTypes (fold applyCall calls b))"
proof (induction calls arbitrary: b)
  case Nil
  then show ?case by simp
next
  case (Cons call calls)
  from Cons.IH [of "applyCall call b"] applyCall_keeps [of call b]
  show ?case by auto
qed

lemma builder_exports_own_type:
  assumes "register (fold applyCall calls (newObjectBuilder i)) c = (None, c')"
  shows "\<exists>info. components c' = components c @ [info] \<and> Instance info = i
           \<and> dynType (Instance info) \<in> set (ExportedTypes info)"
proof -
  let ?b = "fold applyCall calls (newObjectBuilder i)"
  have "b_instance ?b = i" "dynType i \<in> set (b_exportedTypes ?b)"
    using fold_applyCall_keeps [of calls "newObjectBuilder i"]
    by (auto simp: newObjectBuilder_def Let_def)
  with assms show ?thesis
    by (auto simp: register_def registerComponent_def split: option.splits)
qed

text \<open>
  C9 at \<open>AutoRegister\<close>. A pointer instance that implements \<open>Component\<close> is registered
  with no exported type at all, so the descriptor held in the store does not export the
  component's own type, whereas the descriptor a builder registers does.
\<close>

theorem autoRegister_exports_nothing:
  "fst (AutoRegister (\<lambda>i. Some (''svc'', 100)) NewContainer svc) = None
   \<and> components (snd (AutoRegister (\<lambda>i. Some (''svc'', 100)) NewContainer svc))
       = [\<lparr>Instance = svc, InstanceType = None, Name = ''svc'', Priority = 100,
           ExportedTypes = [], IsPrimary = False\<rparr>]
   \<and> dynType svc \<notin> set (ExportedTypes
         (hd (components (snd (AutoRegister (\<lambda>i. Some (''svc'', 100)) NewContainer svc)))))"
  by (simp add: AutoRegister_def registerComponent_def NewContainer_def svc_def)

section \<open>Capability resolution\<close>

lemma fold_appendGroup:
  "distinct ts \<Longrightarrow>
   fold (\<lambda>t g'. appendGroup g' t info) ts g t0
     = (if t0 \<in> set ts then Some ((case g t0 of None \<Rightarrow> [] | Some xs \<Rightarrow> xs) @ [info])
        else g t0)"
  by (induction ts arbitrary: g) (auto simp: appendGroup_def)

lemma fold_groups:
  assumes "\<forall>info \<in> set infos. distinct (ExportedTypes info)"
  shows "fold (\<lambda>info g. fold (\<lambda>t g'. appendGroup g' t info) (ExportedTypes info) g) infos g t
     = (if providers infos t = [] then g t
        else Some ((case g t of None \<Rightarrow> [] | Some xs \<Rightarrow> xs) @ providers infos t))"
  using assms
proof (induction infos arbitrary: g)
  case Nil
  then show ?case by (simp add: providers_def)
next
  case (Cons info infos)
  let ?g = "fold (\<lambda>t g'. appendGroup g' t info) (ExportedTypes info) g"
  have d: "distinct (ExportedTypes info)" using Cons.prems by simp
  have ih: "fold (\<lambda>info g. fold (\<lambda>t g'. appendGroup g' t info) (ExportedTypes info) g) infos ?g t
     = (if providers infos t = [] then ?g t
        else Some ((case ?g t of None \<Rightarrow> [] | Some xs \<Rightarrow> xs) @ providers infos t))"
    using Cons.prems by (intro Cons.IH) simp
  show ?case
    by (simp add: ih fold_appendGroup [OF d] providers_def)
qed

lemma typeGroups_providers:
  assumes "\<forall>info \<in> set infos. distinct (ExportedTypes info)"
  shows "typeGroups infos t
           = (if providers infos t = [] then None else Some (providers infos t))"
  unfolding typeGroups_def using fold_groups [OF assms, of Map.empty t] by simp

lemma validateGroups_ok:
  "validateGroups g order byType = (None, byType') \<Longrightarrow>
     (\<forall>t comps. t \<in> set order \<and> g t = Some comps \<longrightarrow>
         byType' t = Some (chosen comps)
         \<and> (length comps = 1 \<or> length (filter IsPrimary comps) = 1))
     \<and> (\<forall>t. t \<notin> set order \<or> g t = None \<longrightarrow> byType' t = byType t)"
proof (induction order arbitrary: byType)
  case Nil
  then show ?case by simp
next
  case (Cons t0 rest)
  show ?case
  proof (cases "g t0")
    case None
    with Cons.prems have "validateGroups g rest byType = (None, byType')" by simp
    from Cons.IH [OF this] None show ?thesis by auto
  next
    case (Some comps0)
    have ok: "length comps0 = 1 \<or> length (filter IsPrimary comps0) = 1"
    proof (rule ccontr)
      assume "\<not> (length comps0 = 1 \<or> length (filter IsPrimary comps0) = 1)"
      then have "length comps0 \<noteq> 1"
        and "length (filter IsPrimary comps0) = 0 \<or> length (filter IsPrimary comps0) > 1"
        by arith+
      with Cons.prems Some show False by (auto simp: Let_def split: if_splits)
    qed
    from Cons.prems Some
    have "validateGroups g rest (byType(t0 \<mapsto> chosen comps0)) = (None, byType')"
      by (auto simp: Let_def chosen_def split: if_splits)
    from Cons.IH [OF this]
    have ih1: "\<And>t comps. t \<in> set rest \<Longrightarrow> g t = Some comps \<Longrightarrow>
                 byType' t = Some (chosen comps)
                 \<and> (length comps = 1 \<or> length (filter IsPrimary comps) = 1)"
      and ih2: "\<And>t. t \<notin> set rest \<or> g t = None \<Longrightarrow>
                 byType' t = (byType(t0 \<mapsto> chosen comps0)) t"
      by blast+
    have "byType' t = Some (chosen comps)
          \<and> (length comps = 1 \<or> length (filter IsPrimary comps) = 1)"
      if "t \<in> set (t0 # rest)" "g t = Some comps" for t comps
    proof (cases "t \<in> set rest")
      case True
      with that ih1 show ?thesis by blast
    next
      case False
      with that have "t = t0" "comps = comps0" using Some by auto
      with False ih2 [of t0] ok show ?thesis by simp
    qed
    moreover have "byType' t = byType t" if "t \<notin> set (t0 # rest) \<or> g t = None" for t
    proof -
      from that Some have "t \<noteq> t0" "t \<notin> set rest \<or> g t = None" by auto
      with ih2 [of t] show ?thesis by simp
    qed
    ultimately show ?thesis by blast
  qed
qed

lemma validateGroups_err:
  "validateGroups g order byType = (Some e, byType') \<Longrightarrow>
     \<exists>t comps. t \<in> set order \<and> g t = Some comps \<and> groupError t comps e"
proof (induction order arbitrary: byType)
  case Nil
  then show ?case by simp
next
  case (Cons t0 rest)
  show ?case
  proof (cases "g t0")
    case None
    with Cons.prems have "validateGroups g rest byType = (Some e, byType')" by simp
    from Cons.IH [OF this] show ?thesis by auto
  next
    case (Some comps0)
    show ?thesis
    proof (cases "length comps0 = 1 \<or> length (filter IsPrimary comps0) = 1")
      case True
      with Cons.prems Some
      have "validateGroups g rest (byType(t0 \<mapsto> chosen comps0)) = (Some e, byType')"
        by (auto simp: Let_def chosen_def split: if_splits)
      from Cons.IH [OF this] show ?thesis by auto
    next
      case False
      then have "length (filter IsPrimary comps0) = 0 \<or> length (filter IsPrimary comps0) > 1"
        by arith
      with False Cons.prems Some have "groupError t0 comps0 e"
        by (auto simp: Let_def groupError_def split: if_splits)
      with Some show ?thesis by auto
    qed
  qed
qed

text \<open>
  Resolution where no descriptor lists a capability twice. The capability \<open>t\<close> is
  exported by the descriptors \<open>providers (components c) t\<close>, in registration order. If
  validation returns nil, a single provider is selected whatever its primary flag, and
  among several providers exactly one is primary and it is selected. If validation
  returns an error, it is the error of some capability with several providers: the
  ambiguity error with the names of all of them when none is primary, the conflict
  error with the names of the primaries when more than one is.
\<close>

lemma resolution_without_duplicates:
  assumes "\<forall>info \<in> set (components c). distinct (ExportedTypes info)"
    and "keyOrder (typeGroups (components c)) order"
    and "validateTypeRegistrations order c = (r, c')"
  shows "(r = None \<and> providers (components c) t = [p] \<longrightarrow> componentsByType c' t = Some p)
       \<and> (r = None \<and> length (providers (components c) t) \<ge> 2 \<longrightarrow>
            (\<exists>p. filter IsPrimary (providers (components c) t) = [p]
                 \<and> componentsByType c' t = Some p))
       \<and> (r = None \<and> providers (components c) t = [] \<longrightarrow> componentsByType c' t = None)
       \<and> (\<forall>e. r = Some e \<longrightarrow>
            (\<exists>t'. length (providers (components c) t') \<ge> 2
                  \<and> groupError t' (providers (components c) t') e))"
proof -
  let ?g = "typeGroups (components c)"
  obtain byType' where v: "validateGroups ?g order Map.empty = (r, byType')"
    and c': "c' = c\<lparr>componentsByType := byType'\<rparr>"
    using assms(3) by (auto simp: validateTypeRegistrations_def split: prod.splits)
  have g: "?g t' = (if providers (components c) t' = [] then None
                    else Some (providers (components c) t'))" for t'
    by (rule typeGroups_providers [OF assms(1)])
  have key: "t' \<in> set order \<longleftrightarrow> providers (components c) t' \<noteq> []" for t'
    using assms(2) g [of t'] by (auto simp: keyOrder_def dom_def split: if_splits)
  show ?thesis
  proof (cases r)
    case None
    from v None have ok: "validateGroups ?g order Map.empty = (None, byType')" by simp
    note facts = validateGroups_ok [OF ok]
    have one: "componentsByType c' t = Some p" if "providers (components c) t = [p]"
    proof -
      from that have "t \<in> set order" "?g t = Some [p]" using key g by auto
      with facts have "byType' t = Some (chosen [p])" by blast
      then show ?thesis by (simp add: c' chosen_def)
    qed
    have many: "\<exists>p. filter IsPrimary (providers (components c) t) = [p]
                 \<and> componentsByType c' t = Some p"
      if "length (providers (components c) t) \<ge> 2"
    proof -
      let ?ps = "providers (components c) t"
      from that have ne: "?ps \<noteq> []" by auto
      then have "t \<in> set order" "?g t = Some ?ps" using key g by auto
      with facts have b: "byType' t = Some (chosen ?ps)"
        and "length ?ps = 1 \<or> length (filter IsPrimary ?ps) = 1" by blast+
      with that have "length (filter IsPrimary ?ps) = 1" by simp
      then obtain p where p: "filter IsPrimary ?ps = [p]"
        by (cases "filter IsPrimary ?ps") auto
      with that b have "byType' t = Some p" by (simp add: chosen_def)
      with p show ?thesis by (simp add: c')
    qed
    have none: "componentsByType c' t = None" if "providers (components c) t = []"
    proof -
      from that have "?g t = None" using g by simp
      with facts have "byType' t = Map.empty t" by blast
      then show ?thesis by (simp add: c')
    qed
    from None one many none show ?thesis by simp
  next
    case (Some e)
    from v Some have "validateGroups ?g order Map.empty = (Some e, byType')" by simp
    from validateGroups_err [OF this] obtain t' comps where
      h: "t' \<in> set order" "?g t' = Some comps" "groupError t' comps e" by blast
    from h(2) g [of t'] have comps: "comps = providers (components c) t'" "comps \<noteq> []"
      by (auto split: if_splits)
    from h(3) comps have "length comps \<noteq> 0" "length comps \<noteq> 1"
      by (auto simp: groupError_def)
    then have "length comps \<ge> 2" by arith
    with comps have "length (providers (components c) t') \<ge> 2" by simp
    with h(3) comps Some show ?thesis by auto
  qed
qed

text \<open>
  C1 at a descriptor that lists a capability twice. The component \<open>d\<close> is the only
  descriptor of the store and exports \<open>main.I\<close> by two \<open>Export\<close> calls: in either order
  of the groups, validation fails as ambiguous between \<open>d\<close> and \<open>d\<close>, and with \<open>d\<close> marked
  primary it fails with \<open>d\<close> tied with itself.
\<close>

theorem single_provider_listed_twice:
  "fst (validateTypeRegistrations [TPtr (TNamed ''main.D''), TNamed ''main.I'']
          (registerAll NewContainer [compDup]))
     = Some (AmbiguousComponents (TNamed ''main.I'') [''d'', ''d''])
   \<and> fst (validateTypeRegistrations [TNamed ''main.I'', TPtr (TNamed ''main.D'')]
          (registerAll NewContainer [compDup]))
     = Some (AmbiguousComponents (TNamed ''main.I'') [''d'', ''d''])
   \<and> fst (validateTypeRegistrations [TPtr (TNamed ''main.D''), TNamed ''main.I'']
          (registerAll NewContainer [compDup\<lparr>IsPrimary := True\<rparr>]))
     = Some (MultiplePrimary (TNamed ''main.I'') [''d'', ''d''])"
  by (simp add: validateTypeRegistrations_def typeGroups_def appendGroup_def
        registerComponent_def NewContainer_def compDup_def descriptor_def)

section \<open>Wiring directives\<close>

lemma suffix_eq: "hasOptionalSuffix tag \<longleftrightarrow> length tag > 9 \<and> endsWithOptional tag"
  by (auto simp: hasOptionalSuffix_def endsWithOptional_def)

text \<open>
  C2 as the code has it. For a field that can be set and carries the directive \<open>tag\<close>,
  injection of that field does what \<open>amendedDirective\<close> says, in this precedence:
  \<open>optional\<close> or \<open>?\<close> resolves by the field's capability and swallows failure; a string
  longer than the suffix \<open>,optional\<close> that ends in it is stripped of it and resolves by
  the remaining name, or by capability if the remainder is \<open>required\<close>, and swallows
  failure; \<open>required\<close> or the empty string resolves by capability, fatally; any other
  string resolves by that name, fatally on absence or on a target that is not
  assignable.
\<close>

theorem directive_precedence:
  assumes "canSet f" and "autowire f = Some tag"
  shows "injectFields asg c [f] = amendedDirective asg c f tag"
  using assms
  by (auto simp: amendedDirective_def resolveDependencyUnsafe_def suffix_eq Let_def
        byCapability_def byLiteralName_def bindField_def leaveUnset_def fatal_def
        getByTypeUnsafe_def getByNameUnsafe_def
      split: option.splits sum.splits)

lemma storeR_eval:
  "componentsByName storeR ''required'' = Some compR"
  "componentsByType storeR (TNamed ''main.I'') = None"
  "componentsByName NewContainer '',optional'' = None"
  "componentsByName NewContainer [] = None"
  by (simp_all add: storeR_def validateTypeRegistrations_def typeGroups_def appendGroup_def
        registerComponent_def NewContainer_def compR_def descriptor_def)

lemma fieldI_simps:
  "canSet (fieldI tag settable) = settable" "autowire (fieldI tag settable) = Some tag"
  "ftype (fieldI tag settable) = TNamed ''main.I''" "fname (fieldI tag settable) = ''Dep''"
  "fval (fieldI tag settable) = None"
  by (simp_all add: fieldI_def)

lemma amended_required:
  "amendedDirective implementsI storeR (fieldI ''required'' True) ''required''
     = (InjectError (AutowireFailed ''Dep'' (TypeNotFound (TNamed ''main.I''))),
        [fieldI ''required'' True])"
  by (simp add: amendedDirective_def byCapability_def fatal_def storeR_eval fieldI_simps)

theorem directive_precedence_witness:
  "injectFields implementsI storeR [fieldI ''required'' True]
     = (InjectError (AutowireFailed ''Dep'' (TypeNotFound (TNamed ''main.I''))),
        [fieldI ''required'' True])"
  using directive_precedence [of "fieldI ''required'' True" "''required''" implementsI storeR]
  by (simp only: fieldI_simps amended_required simp_thms)

text \<open>
  C2 as stated fails. The store holds one component, named \<open>required\<close>, that can be
  assigned to the field but does not export the field's type. For the directive
  \<open>required,optional\<close> the code resolves by the field's type, finds nothing and leaves
  the field unset, where the stated grammar strips the suffix and binds the component of that
  name. For the directive \<open>,optional\<close> on an empty store the code looks for a component
  of that very name and fails, where the stated grammar swallows the failure.
\<close>

theorem directive_suffix_counterexample:
  "injectFields implementsI storeR [fieldI ''required,optional'' True]
     = (Injected, [fieldI ''required,optional'' True])
   \<and> claimedDirective implementsI storeR (fieldI ''required,optional'' True) ''required,optional''
     = (Injected, [(fieldI ''required,optional'' True)\<lparr>fval := Some (Instance compR)\<rparr>])
   \<and> injectFields implementsI NewContainer [fieldI '',optional'' True]
     = (InjectError (AutowireFailed ''Dep'' (ComponentNotFound '',optional'')),
        [fieldI '',optional'' True])
   \<and> claimedDirective implementsI NewContainer (fieldI '',optional'' True) '',optional''
     = (Injected, [fieldI '',optional'' True])"
  by (simp add: claimedDirective_def endsWithOptional_def hasOptionalSuffix_def
        resolveDependencyUnsafe_def getByTypeUnsafe_def getByNameUnsafe_def
        byLiteralName_def bindField_def leaveUnset_def storeR_eval fieldI_simps
        implementsI_def)

section \<open>Required fields after injection\<close>

lemma required_resolves:
  assumes "\<not> optionalDirective tag"
  shows "resolveDependencyUnsafe asg c t tag \<noteq> Inr None"
  using assms
  by (auto simp: optionalDirective_def resolveDependencyUnsafe_def Let_def
        getByTypeUnsafe_def getByNameUnsafe_def split: option.splits)

lemma resolved_is_indexed:
  assumes "resolveDependencyUnsafe asg c t tag = Inr (Some d)"
  shows "(\<exists>info. componentsByType c t = Some info \<and> d = Instance info)
         \<or> (\<exists>name info. componentsByName c name = Some info \<and> d = Instance info)"
  using assms
  by (auto simp: resolveDependencyUnsafe_def Let_def getByTypeUnsafe_def getByNameUnsafe_def
      split: option.splits if_splits)

lemma resolved_from_store:
  assumes "nonNilStore c"
    and "resolveDependencyUnsafe asg c t tag = Inr (Some d)"
  shows "ref d \<noteq> 0"
  using resolved_is_indexed [OF assms(2)] assms(1) unfolding nonNilStore_def by blast

lemma injectFields_fieldAfter:
  assumes nn: "nonNilStore c"
  shows "injectFields asg c fs = (Injected, fs') \<Longrightarrow> list_all2 (fieldAfter asg c) fs fs'"
proof (induction fs arbitrary: fs')
  case Nil
  then show ?case by simp
next
  case (Cons f fs)
  obtain r rest where rec: "injectFields asg c fs = (r, rest)"
    by (cases "injectFields asg c fs")
  show ?case
  proof (cases "autowire f")
    case None
    with Cons.prems rec have "r = Injected" "fs' = f # rest" by auto
    with Cons.IH [of rest] rec None show ?thesis by (simp add: fieldAfter_def)
  next
    case (Some tag)
    show ?thesis
    proof (cases "canSet f")
      case False
      with Cons.prems rec Some have "r = Injected" "fs' = f # rest" by auto
      with Cons.IH [of rest] rec False show ?thesis by (simp add: fieldAfter_def)
    next
      case True
      show ?thesis
      proof (cases "resolveDependencyUnsafe asg c (ftype f) tag")
        case (Inl err)
        with Cons.prems rec Some True
        have "optionalDirective tag" "r = Injected" "fs' = f # rest"
          by (auto simp: optionalDirective_def split: if_splits)
        with Cons.IH [of rest] rec Some show ?thesis by (simp add: fieldAfter_def)
      next
        case (Inr res)
        show ?thesis
        proof (cases res)
          case None
          with Inr have "optionalDirective tag" using required_resolves by blast
          moreover from Cons.prems rec Some True Inr None
          have "r = Injected" "fs' = f # rest" by auto
          ultimately show ?thesis using Cons.IH [of rest] rec Some
            by (simp add: fieldAfter_def)
        next
          case (Some d)
          with Cons.prems rec \<open>autowire f = Some tag\<close> True Inr
          have "asg (dynType d) (ftype f)" "r = Injected" "fs' = f\<lparr>fval := Some d\<rparr> # rest"
            by (auto split: if_splits)
          moreover from Inr Some have "ref d \<noteq> 0"
            using resolved_from_store [OF nn] by blast
          ultimately show ?thesis
            using Cons.IH [of rest] rec \<open>autowire f = Some tag\<close> Inr Some
            by (auto simp: fieldAfter_def)
        qed
      qed
    qed
  qed
qed

lemma injectFields_skips:
  "injectFields asg c fs = (r, fs') \<Longrightarrow> list_all2 (\<lambda>f f'. skipped f \<longrightarrow> f' = f) fs fs'"
proof (induction fs arbitrary: r fs')
  case Nil
  then show ?case by simp
next
  case (Cons f fs)
  obtain r2 rest where rec: "injectFields asg c fs = (r2, rest)"
    by (cases "injectFields asg c fs")
  have same: "list_all2 (\<lambda>f f'. skipped f \<longrightarrow> f' = f) (f # fs) (f # fs)"
    by (simp add: list_all2_same)
  from Cons.IH [OF rec]
  have ih: "list_all2 (\<lambda>f f'. skipped f \<longrightarrow> f' = f) fs rest" .
  from Cons.prems rec
  have "fs' = f # fs \<or> fs' = f # rest
        \<or> (\<exists>d. \<not> skipped f \<and> fs' = f\<lparr>fval := Some d\<rparr> # rest)"
    by (auto simp: skipped_def Let_def split: option.splits sum.splits if_splits)
  with same ih show ?case by auto
qed

lemma injectFields_all_skipped:
  "\<forall>f \<in> set fs. skipped f \<Longrightarrow> injectFields asg c fs = (Injected, fs)"
  by (induction fs) (auto simp: skipped_def split: option.splits)

text \<open>
  C5 as the code has it. Let the component be a pointer to a struct. (1) When
  injection returns nil and no instance indexed by the store is a nil pointer, every
  own field of the struct is untouched or set, and every own field that can be set and
  whose directive is not optional holds a reference that is not nil, is assignable to
  the field's type and is the one its directive resolves to. (2) Whatever injection
  returns, the own fields without a tag and those that cannot be set are as they were,
  and so are the fields of embedded structs. (3) If every own field is of that kind,
  injection returns nil and changes nothing. (4) A component that is not a pointer is
  returned as it is, with nil. Nothing is said of optional fields, which may stay unset.
\<close>

theorem required_fields_bound:
  "(nonNilStore c \<and> injectComponentUnsafe asg c (PtrToStruct fs emb) = (Injected, target') \<longrightarrow>
      (\<exists>fs'. target' = PtrToStruct fs' emb \<and> list_all2 (fieldAfter asg c) fs fs'))
   \<and> (injectComponentUnsafe asg c (PtrToStruct fs emb) = (r, target'') \<longrightarrow>
      (\<exists>fs'. target'' = PtrToStruct fs' emb
             \<and> list_all2 (\<lambda>f f'. skipped f \<longrightarrow> f' = f) fs fs'))
   \<and> ((\<forall>f \<in> set fs. skipped f) \<longrightarrow>
      injectComponentUnsafe asg c (PtrToStruct fs emb) = (Injected, PtrToStruct fs emb))
   \<and> injectComponentUnsafe asg c (NotPtr fs) = (Injected, NotPtr fs)"
proof (intro conjI impI)
  obtain r0 fs0 where rec: "injectFields asg c fs = (r0, fs0)"
    by (cases "injectFields asg c fs")
  {
    assume a: "nonNilStore c \<and> injectComponentUnsafe asg c (PtrToStruct fs emb) = (Injected, target')"
    with rec have "r0 = Injected" "target' = PtrToStruct fs0 emb"
      by (auto simp: injectComponentUnsafe_def)
    with rec a injectFields_fieldAfter [of c asg fs fs0]
    show "\<exists>fs'. target' = PtrToStruct fs' emb \<and> list_all2 (fieldAfter asg c) fs fs'"
      by simp
  }
  {
    assume "injectComponentUnsafe asg c (PtrToStruct fs emb) = (r, target'')"
    with rec have "target'' = PtrToStruct fs0 emb"
      by (auto simp: injectComponentUnsafe_def)
    with injectFields_skips [OF rec]
    show "\<exists>fs'. target'' = PtrToStruct fs' emb
             \<and> list_all2 (\<lambda>f f'. skipped f \<longrightarrow> f' = f) fs fs'"
      by simp
  }
  {
    assume "\<forall>f \<in> set fs. skipped f"
    then show "injectComponentUnsafe asg c (PtrToStruct fs emb) = (Injected, PtrToStruct fs emb)"
      by (simp add: injectComponentUnsafe_def injectFields_all_skipped)
  }
  show "injectComponentUnsafe asg c (NotPtr fs) = (Injected, NotPtr fs)"
    by (simp add: injectComponentUnsafe_def)
qed

lemma storeA_eval:
  "componentsByType storeA (TNamed ''main.I'') = Some compA"
  "componentsByName storeA ''Cache'' = None"
  by (simp_all add: storeA_def validateTypeRegistrations_def typeGroups_def appendGroup_def
        registerComponent_def NewContainer_def compA_def descriptor_def)

lemma storeA_nonNil: "nonNilStore storeA"
  by (simp add: nonNilStore_def storeA_def validateTypeRegistrations_def typeGroups_def
        appendGroup_def registerComponent_def NewContainer_def compA_def descriptor_def)

lemma injectA:
  "injectComponentUnsafe implementsI storeA
     (PtrToStruct [fieldI [] True, fieldI ''Cache,optional'' True, fieldI [] False]
                  [fieldI ''required'' True])
   = (Injected, PtrToStruct [(fieldI [] True)\<lparr>fval := Some (Instance compA)\<rparr>,
                             fieldI ''Cache,optional'' True, fieldI [] False]
                            [fieldI ''required'' True])"
  by (simp add: injectComponentUnsafe_def resolveDependencyUnsafe_def hasOptionalSuffix_def
        getByTypeUnsafe_def getByNameUnsafe_def storeA_eval fieldI_simps implementsI_def)

theorem required_fields_bound_witness:
  "list_all2 (fieldAfter implementsI storeA)
     [fieldI [] True, fieldI ''Cache,optional'' True, fieldI [] False]
     [(fieldI [] True)\<lparr>fval := Some (Instance compA)\<rparr>, fieldI ''Cache,optional'' True,
      fieldI [] False]
   \<and> list_all2 (\<lambda>f f'. skipped f \<longrightarrow> f' = f)
     [fieldI [] True, fieldI ''Cache,optional'' True, fieldI [] False]
     [(fieldI [] True)\<lparr>fval := Some (Instance compA)\<rparr>, fieldI ''Cache,optional'' True,
      fieldI [] False]
   \<and> injectComponentUnsafe implementsI storeA (PtrToStruct [fieldI [] False] [])
       = (Injected, PtrToStruct [fieldI [] False] [])"
proof -
  have s: "\<forall>f \<in> set [fieldI [] False]. skipped f"
    by (simp add: skipped_def fieldI_simps)
  from required_fields_bound
    [of storeA implementsI
        "[fieldI [] True, fieldI ''Cache,optional'' True, fieldI [] False]"
        "[fieldI ''required'' True]"
        "PtrToStruct [(fieldI [] True)\<lparr>fval := Some (Instance compA)\<rparr>,
                      fieldI ''Cache,optional'' True, fieldI [] False]
                     [fieldI ''required'' True]"]
    storeA_nonNil injectA
  have "list_all2 (fieldAfter implementsI storeA)
     [fieldI [] True, fieldI ''Cache,optional'' True, fieldI [] False]
     [(fieldI [] True)\<lparr>fval := Some (Instance compA)\<rparr>, fieldI ''Cache,optional'' True,
      fieldI [] False]"
    by blast
  moreover from required_fields_bound
    [of storeA implementsI
        "[fieldI [] True, fieldI ''Cache,optional'' True, fieldI [] False]"
        "[fieldI ''required'' True]" _ Injected
        "PtrToStruct [(fieldI [] True)\<lparr>fval := Some (Instance compA)\<rparr>,
                      fieldI ''Cache,optional'' True, fieldI [] False]
                     [fieldI ''required'' True]"]
    injectA
  have "list_all2 (\<lambda>f f'. skipped f \<longrightarrow> f' = f)
     [fieldI [] True, fieldI ''Cache,optional'' True, fieldI [] False]
     [(fieldI [] True)\<lparr>fval := Some (Instance compA)\<rparr>, fieldI ''Cache,optional'' True,
      fieldI [] False]"
    by blast
  moreover from required_fields_bound [of storeA implementsI "[fieldI [] False]" "[]"] s
  have "injectComponentUnsafe implementsI storeA (PtrToStruct [fieldI [] False] [])
       = (Injected, PtrToStruct [fieldI [] False] [])"
    by blast
  ultimately show ?thesis by simp
qed

lemma storeNil_eval:
  "componentsByType storeNil (TNamed ''main.I'') = Some compNil"
  by (simp add: storeNil_def validateTypeRegistrations_def typeGroups_def appendGroup_def
        registerComponent_def NewContainer_def compNil_def descriptor_def)

text \<open>
  C5 as stated fails. A field with the required directive \<open>autowire:""\<close> that cannot be
  set (an unexported field) is skipped: injection returns nil and the field holds no
  reference. The same happens to the required field of an embedded struct, to every
  field of a component that is not passed as a pointer, and, in a store whose provider
  was registered as a typed nil pointer, the required field is set to that nil pointer.
\<close>

theorem required_field_unset_counterexample:
  "injectComponentUnsafe implementsI storeA (PtrToStruct [fieldI [] False] [])
     = (Injected, PtrToStruct [fieldI [] False] [])
   \<and> injectComponentUnsafe implementsI storeA (PtrToStruct [] [fieldI ''required'' True])
     = (Injected, PtrToStruct [] [fieldI ''required'' True])
   \<and> injectComponentUnsafe implementsI storeA (NotPtr [fieldI [] True])
     = (Injected, NotPtr [fieldI [] True])
   \<and> injectComponentUnsafe implementsI storeNil (PtrToStruct [fieldI [] True] [])
     = (Injected, PtrToStruct [(fieldI [] True)\<lparr>fval := Some (Instance compNil)\<rparr>] [])
   \<and> ref (Instance compNil) = 0
   \<and> autowire (fieldI [] False) = Some [] \<and> \<not> optionalDirective []
   \<and> \<not> optionalDirective ''required''
   \<and> fval (fieldI [] False) = None \<and> fval (fieldI [] True) = None
   \<and> fval (fieldI ''required'' True) = None"
  by (simp add: injectComponentUnsafe_def fieldI_simps optionalDirective_def
        hasOptionalSuffix_def resolveDependencyUnsafe_def getByTypeUnsafe_def storeNil_eval
        implementsI_def)
     (simp add: compNil_def descriptor_def)

end
